theory Spec2Isabelle
  imports Main "HOL-Library.Word"
begin

section \<open>The todo-write tool: strings\<close>

text \<open>
  A JavaScript string is a sequence of UTF-16 code units, and \<open>length\<close>, \<open>trim\<close> and
  \<open>===\<close> work on code units. The glyph literals of \<^verbatim>\<open>todo-write.ts\<close> lie outside
  the range of an 8-bit \<open>char\<close>, so a string is a list of 16-bit words. \<open>lit\<close> embeds an
  ASCII literal; a literal with other characters is written out as its code units, read off
  the text of the source file.
\<close>

type_synonym jsstring = "16 word list"

definition lit :: "string \<Rightarrow> jsstring" where
  "lit s = map of_char s"

text \<open>
  \<open>String.prototype.trim\<close> removes the white space and line terminators of ECMAScript
  from both ends.
\<close>

definition isWhiteSpace :: "16 word \<Rightarrow> bool" where
  "isWhiteSpace c \<longleftrightarrow>
     c \<in> {0x9, 0xA, 0xB, 0xC, 0xD, 0x20, 0xA0, 0x1680, 0x2028, 0x2029, 0x202F, 0x205F,
          0x3000, 0xFEFF}
     \<or> (0x2000 \<le> c \<and> c \<le> 0x200A)"

definition trimEnd :: "jsstring \<Rightarrow> jsstring" where
  "trimEnd s = rev (dropWhile isWhiteSpace (rev s))"

definition trim :: "jsstring \<Rightarrow> jsstring" where
  "trim s = trimEnd (dropWhile isWhiteSpace s)"

text \<open>
  A template literal \<^verbatim>\<open>${n}\<close> prints an array index or a length in decimal.
\<close>

fun toString :: "nat \<Rightarrow> jsstring" where
  "toString n =
     (if n < 10 then [of_nat (48 + n)]
      else toString (n div 10) @ [of_nat (48 + n mod 10)])"

declare toString.simps [simp del]


section \<open>Data model\<close>

text \<open>
  \<^verbatim>\<open>interface TodoItem { id: string; content: string; status: ... }\<close>.
  The status is a string at run time, and the validator checks it against the three
  recognised values, so it is kept as a string here. (\<open>id\<close> is the identity function of
  HOL, hence the field name \<open>id_of\<close>.)
\<close>

record TodoItem =
  id_of :: jsstring
  content :: jsstring
  status :: jsstring

definition pending :: jsstring where
  "pending = lit ''pending''"

definition in_progress :: jsstring where
  "in_progress = lit ''in_progress''"

definition completed :: jsstring where
  "completed = lit ''completed''"

section \<open>Validator\<close>

text \<open>
  \<^verbatim>\<open>validateToolParams\<close> first asks \<^verbatim>\<open>SchemaValidator.validate\<close>, which is not part
  of the sources at hand: it is the parameter \<open>schemaValidate\<close>, returning the error text
  or \<open>None\<close> for \<^verbatim>\<open>null\<close>. The test \<^verbatim>\<open>if (errors)\<close> is JavaScript truthiness, so an
  empty error text counts as no error.

  The fields of a \<open>TodoItem\<close> are strings, so \<^verbatim>\<open>!todo.id\<close> holds exactly for the empty
  string and \<^verbatim>\<open>typeof todo.id !== 'string'\<close> is false.
\<close>

definition truthy :: "jsstring option \<Rightarrow> bool" where
  "truthy errors \<longleftrightarrow> (case errors of None \<Rightarrow> False | Some e \<Rightarrow> e \<noteq> [])"

definition msg_non_empty_array :: jsstring where
  "msg_non_empty_array =
     lit ''Parameter '' @ [0x22] @ lit ''todos'' @ [0x22] @ lit '' must be a non-empty array.''"

definition msg_id :: "nat \<Rightarrow> jsstring" where
  "msg_id i =
     lit ''Todo item at index '' @ toString i @ lit '' must have a non-empty '' @ [0x22]
       @ lit ''id'' @ [0x22] @ lit '' string.''"

definition msg_content :: "nat \<Rightarrow> jsstring" where
  "msg_content i =
     lit ''Todo item at index '' @ toString i @ lit '' must have a non-empty '' @ [0x22]
       @ lit ''content'' @ [0x22] @ lit '' string.''"

definition msg_status :: "nat \<Rightarrow> jsstring" where
  "msg_status i =
     lit ''Todo item at index '' @ toString i @ lit '' must have a valid '' @ [0x22]
       @ lit ''status'' @ [0x22] @ lit '' (pending, in_progress, or completed).''"

definition msg_one_in_progress :: jsstring where
  "msg_one_in_progress =
     lit ''Only one task can be '' @ [0x22] @ lit ''in_progress'' @ [0x22] @ lit '' at a time.''"

definition msg_unique_ids :: jsstring where
  "msg_unique_ids = lit ''All todo IDs must be unique.''"

text \<open>The \<^verbatim>\<open>for\<close> loop over the items, from index \<open>i\<close> on.\<close>

fun validateItems :: "nat \<Rightarrow> TodoItem list \<Rightarrow> jsstring option" where
  "validateItems i [] = None"
| "validateItems i (todo # rest) =
     (if id_of todo = [] \<or> trim (id_of todo) = [] then Some (msg_id i)
      else if content todo = [] \<or> trim (content todo) = [] then Some (msg_content i)
      else if status todo \<notin> set [pending, in_progress, completed] then Some (msg_status i)
      else validateItems (Suc i) rest)"

definition validateToolParams ::
  "(TodoItem list \<Rightarrow> jsstring option) \<Rightarrow> TodoItem list \<Rightarrow> jsstring option" where
  "validateToolParams schemaValidate todos =
     (let errors = schemaValidate todos in
      if truthy errors then errors
      else if length todos = 0 then Some msg_non_empty_array
      else
        (case validateItems 0 todos of
           Some message \<Rightarrow> Some message
         | None \<Rightarrow>
             let inProgressTasks = filter (\<lambda>todo. status todo = in_progress) todos in
             if length inProgressTasks > 1 then Some msg_one_in_progress
             else
               let ids = map id_of todos in
               if length ids \<noteq> card (set ids) then Some msg_unique_ids
               else None))"

section \<open>Renderer\<close>

text \<open>
  The glyphs, as the code units of the literals in the source text: the clip-board title
  glyph, the terminal and the continuing branch glyph, the empty and the checked box.
\<close>

definition glyph_title :: jsstring where
  "glyph_title = [0xF0, 0x178, 0x201C, 0x2039]"

definition glyph_last :: jsstring where
  "glyph_last = [0xE2, 0x201D, 0x201D, 0xE2, 0x201D, 0x20AC, 0xE2, 0x201D, 0x20AC]"

definition glyph_mid :: jsstring where
  "glyph_mid = [0xE2, 0x201D, 0x153, 0xE2, 0x201D, 0x20AC, 0xE2, 0x201D, 0x20AC]"

definition glyph_empty_box :: jsstring where
  "glyph_empty_box = [0xE2, 0x2DC]"

definition glyph_checked_box :: jsstring where
  "glyph_checked_box = [0xE2, 0x2DC, 0x2018]"

definition esc :: "string \<Rightarrow> jsstring" where
  "esc s = 0x1B # lit s"

definition no_todos_display :: jsstring where
  "no_todos_display =
     glyph_title @ lit '' Todo List'' @ [0xA] @ glyph_last @ lit '' No todos currently tracked.''"

text \<open>
  The body of the \<^verbatim>\<open>forEach\<close> callback: the text appended to \<^verbatim>\<open>display\<close> for the
  item at \<open>index\<close> of a list of \<open>n\<close> items. \<open>mostRecentlyCompleted\<close> is the value of the
  module variable \<^verbatim>\<open>mostRecentlyCompletedId\<close>.
\<close>

definition statusIcon :: "TodoItem \<Rightarrow> jsstring" where
  "statusIcon todo =
     (if status todo = in_progress then glyph_empty_box
      else if status todo = completed then glyph_checked_box
      else glyph_empty_box)"

definition styledContent :: "jsstring option \<Rightarrow> TodoItem \<Rightarrow> jsstring" where
  "styledContent mostRecentlyCompleted todo =
     (if status todo = in_progress then esc ''[34m'' @ content todo @ esc ''[0m''
      else if status todo = completed then
        (if Some (id_of todo) = mostRecentlyCompleted
         then esc ''[32m'' @ esc ''[9m'' @ content todo @ esc ''[29m'' @ esc ''[0m''
         else esc ''[9m'' @ content todo @ esc ''[29m'' @ esc ''[0m'')
      else content todo)"

definition todoLine :: "jsstring option \<Rightarrow> nat \<Rightarrow> nat \<Rightarrow> TodoItem \<Rightarrow> jsstring" where
  "todoLine mostRecentlyCompleted n index todo =
     (let isLast = (index = n - 1);
          prefix = (if isLast then glyph_last else glyph_mid)
      in prefix @ lit '' '' @ statusIcon todo @ lit '' ''
           @ styledContent mostRecentlyCompleted todo @ [0xA])"

fun forEachTodo ::
  "jsstring option \<Rightarrow> nat \<Rightarrow> nat \<Rightarrow> TodoItem list \<Rightarrow> jsstring \<Rightarrow> jsstring" where
  "forEachTodo mostRecentlyCompleted n index [] display = display"
| "forEachTodo mostRecentlyCompleted n index (todo # rest) display =
     forEachTodo mostRecentlyCompleted n (Suc index) rest
       (display @ todoLine mostRecentlyCompleted n index todo)"

definition generateTodoDisplay :: "jsstring option \<Rightarrow> TodoItem list \<Rightarrow> jsstring" where
  "generateTodoDisplay mostRecentlyCompleted todos =
     (if length todos = 0 then no_todos_display
      else trim (forEachTodo mostRecentlyCompleted (length todos) 0 todos
                   (glyph_title @ lit '' Todo List'' @ [0xA])))"

definition generateSummary :: "TodoItem list \<Rightarrow> jsstring" where
  "generateSummary todos =
     (let totalTodos = length todos;
          completedTodos = length (filter (\<lambda>t. status t = completed) todos);
          inProgressTodos = length (filter (\<lambda>t. status t = in_progress) todos);
          pendingTodos = length (filter (\<lambda>t. status t = pending) todos)
      in toString totalTodos @ lit '' total tasks: '' @ toString completedTodos
           @ lit '' completed, '' @ toString inProgressTodos @ lit '' in progress, ''
           @ toString pendingTodos @ lit '' pending'')"

section \<open>Store and invocation\<close>

text \<open>
  The module keeps two variables, \<^verbatim>\<open>currentTodos\<close> and \<^verbatim>\<open>mostRecentlyCompletedId\<close>.
  An array and a todo object are JavaScript objects: a variable or an array slot holds a
  reference, and \<^verbatim>\<open>[...xs]\<close> makes a new array holding the same element references. The
  store is therefore explicit: arrays and todo objects live at addresses, \<open>next_addr\<close> is
  the first address not yet in use.

  An array slot holds a reference to a todo object or, when the caller passes a list that
  does not follow \<^verbatim>\<open>TodoItem[]\<close>, \<^verbatim>\<open>null\<close>; reading a property of \<^verbatim>\<open>null\<close>
  throws a \<^verbatim>\<open>TypeError\<close>.
\<close>

type_synonym addr = nat

datatype elem = Null | Obj addr

datatype js_error = TypeError jsstring

record machine =
  objects :: "addr \<Rightarrow> TodoItem"
  arrays :: "addr \<Rightarrow> elem list"
  next_addr :: addr
  currentTodos :: addr
  mostRecentlyCompletedId :: "jsstring option"

definition errorMessage :: "js_error \<Rightarrow> jsstring" where
  "errorMessage error = (case error of TypeError message \<Rightarrow> message)"

text \<open>
  Reading the property \<open>name\<close> of the element \<open>t\<close>: the object read, or the error
  the engine throws (with the wording of V8).
\<close>

definition read_prop :: "machine \<Rightarrow> string \<Rightarrow> elem \<Rightarrow> js_error + TodoItem" where
  "read_prop m name t =
     (case t of
        Null \<Rightarrow>
          Inl (TypeError (lit ''Cannot read properties of null (reading '' @ [0x27] @ lit name
                            @ [0x27] @ lit '')''))
      | Obj a \<Rightarrow> Inr (objects m a))"

text \<open>
  \<^verbatim>\<open>Array.prototype.find\<close> with a callback that first reads the property \<open>name\<close>: it
  stops at the first element satisfying the callback and does not touch the elements after it.
\<close>

fun find_todo ::
  "machine \<Rightarrow> string \<Rightarrow> (TodoItem \<Rightarrow> bool) \<Rightarrow> elem list \<Rightarrow> js_error + TodoItem option" where
  "find_todo m name P [] = Inr None"
| "find_todo m name P (t # ts) =
     (case read_prop m name t of
        Inl error \<Rightarrow> Inl error
      | Inr todo \<Rightarrow> if P todo then Inr (Some todo) else find_todo m name P ts)"

text \<open>
  \<^verbatim>\<open>forEach\<close> and \<^verbatim>\<open>filter\<close> visit every element; their callbacks read the property
  \<open>name\<close> of each.
\<close>

fun read_all :: "machine \<Rightarrow> string \<Rightarrow> elem list \<Rightarrow> js_error + TodoItem list" where
  "read_all m name [] = Inr []"
| "read_all m name (t # ts) =
     (case read_prop m name t of
        Inl error \<Rightarrow> Inl error
      | Inr todo \<Rightarrow>
          (case read_all m name ts of
             Inl error \<Rightarrow> Inl error
           | Inr todos \<Rightarrow> Inr (todo # todos)))"

text \<open>An array literal or a spread allocates a new array.\<close>

definition new_array :: "elem list \<Rightarrow> machine \<Rightarrow> addr \<times> machine" where
  "new_array xs m =
     (next_addr m, m\<lparr>arrays := (arrays m)(next_addr m := xs), next_addr := Suc (next_addr m)\<rparr>)"

text \<open>
  The result of \<^verbatim>\<open>execute\<close>. \<^verbatim>\<open>llmContent\<close> is the \<^verbatim>\<open>JSON.stringify\<close> of an object
  literal; the model keeps the object, its field \<^verbatim>\<open>success\<close> being the constructor
  and its other fields the selectors.
\<close>

datatype payload =
  Success (payload_message: jsstring) (payload_todos: "TodoItem list") (payload_summary: jsstring)
| Failure (payload_error: jsstring)

record ToolResult =
  llmContent :: payload
  returnDisplay :: jsstring

text \<open>The \<^verbatim>\<open>catch\<close> branch of \<^verbatim>\<open>execute\<close> (its \<^verbatim>\<open>console.error\<close> is left out).\<close>

definition catch_result :: "js_error \<Rightarrow> ToolResult" where
  "catch_result error =
     \<lparr>llmContent = Failure (lit ''Failed to update todos: '' @ errorMessage error),
      returnDisplay = lit ''Error updating todos: '' @ errorMessage error\<rparr>"

text \<open>
  The recency marker computed at the start of the \<^verbatim>\<open>try\<close> block, from the stored list
  and the list \<open>todos_ref\<close> of the invocation.
\<close>

definition newlyCompleted :: "machine \<Rightarrow> addr \<Rightarrow> js_error + jsstring option" where
  "newlyCompleted m todos_ref =
     (case find_todo m ''status'' (\<lambda>t. status t = in_progress) (arrays m (currentTodos m)) of
        Inl error \<Rightarrow> Inl error
      | Inr None \<Rightarrow> Inr None
      | Inr (Some previouslyInProgress) \<Rightarrow>
          (case find_todo m ''id''
                  (\<lambda>t. id_of t = id_of previouslyInProgress \<and> status t = completed)
                  (arrays m todos_ref) of
             Inl error \<Rightarrow> Inl error
           | Inr None \<Rightarrow> Inr None
           | Inr (Some nowCompleted) \<Rightarrow> Inr (Some (id_of nowCompleted))))"

text \<open>
  \<^verbatim>\<open>execute\<close> for an invocation whose \<^verbatim>\<open>params.todos\<close> is the array at \<open>todos_ref\<close>.
  An error thrown in the \<^verbatim>\<open>try\<close> block leaves the assignments made before it in place.
\<close>

definition execute :: "machine \<Rightarrow> addr \<Rightarrow> ToolResult \<times> machine" where
  "execute m todos_ref =
     (case newlyCompleted m todos_ref of
        Inl error \<Rightarrow> (catch_result error, m)
      | Inr marker \<Rightarrow>
          let m1 = m\<lparr>mostRecentlyCompletedId := marker\<rparr>;
              (copy, m2) = new_array (arrays m1 todos_ref) m1;
              m3 = m2\<lparr>currentTodos := copy\<rparr>
          in (case read_all m3 ''status'' (arrays m3 todos_ref) of
                Inl error \<Rightarrow> (catch_result error, m3)
              | Inr items \<Rightarrow>
                  let todoDisplay = generateTodoDisplay (mostRecentlyCompletedId m3) items;
                      summary = generateSummary items
                  in (\<lparr>llmContent =
                         Success (lit ''Todo list updated successfully'') items summary,
                       returnDisplay = todoDisplay\<rparr>, m3)))"

definition getCurrentTodos :: "machine \<Rightarrow> addr \<times> machine" where
  "getCurrentTodos m = new_array (arrays m (currentTodos m)) m"

definition clearTodos :: "machine \<Rightarrow> machine" where
  "clearTodos m = (let (empty, m1) = new_array [] m in m1\<lparr>currentTodos := empty\<rparr>)"

text \<open>
  The state after the module is loaded: \<^verbatim>\<open>currentTodos = []\<close>,
  \<^verbatim>\<open>mostRecentlyCompletedId = null\<close>.
\<close>

definition initial :: machine where
  "initial =
     \<lparr>objects = (\<lambda>a. \<lparr>id_of = [], content = [], status = []\<rparr>), arrays = (\<lambda>a. []),
      next_addr = 1, currentTodos = 0, mostRecentlyCompletedId = None\<rparr>"

section \<open>Callers and observations\<close>

text \<open>
  What a caller does around the tool: it builds a list of fresh todo objects (an array
  literal of object literals) and executes an invocation on it; later it may assign to a
  slot of an array it holds, or to a field of an object it holds.
\<close>

fun new_objects :: "TodoItem list \<Rightarrow> machine \<Rightarrow> elem list \<times> machine" where
  "new_objects [] m = ([], m)"
| "new_objects (item # items) m =
     (let a = next_addr m;
          m1 = m\<lparr>objects := (objects m)(a := item), next_addr := Suc a\<rparr>;
          (es, m2) = new_objects items m1
      in (Obj a # es, m2))"

definition new_list :: "TodoItem list \<Rightarrow> machine \<Rightarrow> addr \<times> machine" where
  "new_list items m = (let (es, m1) = new_objects items m in new_array es m1)"

definition submit :: "TodoItem list \<Rightarrow> machine \<Rightarrow> ToolResult \<times> machine" where
  "submit items m = (let (todos_ref, m1) = new_list items m in execute m1 todos_ref)"

definition caller_sets_array :: "addr \<Rightarrow> elem list \<Rightarrow> machine \<Rightarrow> machine" where
  "caller_sets_array r xs m = m\<lparr>arrays := (arrays m)(r := xs)\<rparr>"

definition caller_sets_object :: "addr \<Rightarrow> TodoItem \<Rightarrow> machine \<Rightarrow> machine" where
  "caller_sets_object a item m = m\<lparr>objects := (objects m)(a := item)\<rparr>"

text \<open>
  The todo items that the elements of an array refer to, and the list the store holds.
  A list follows \<^verbatim>\<open>TodoItem[]\<close> when none of its elements is \<^verbatim>\<open>null\<close>.
\<close>

definition deref :: "machine \<Rightarrow> elem list \<Rightarrow> TodoItem list" where
  "deref m es = concat (map (\<lambda>e. case e of Null \<Rightarrow> [] | Obj a \<Rightarrow> [objects m a]) es)"

definition stored :: "machine \<Rightarrow> TodoItem list" where
  "stored m = deref m (arrays m (currentTodos m))"

definition well_typed :: "elem list \<Rightarrow> bool" where
  "well_typed es = list_all (\<lambda>e. e \<noteq> Null) es"

text \<open>
  \<^verbatim>\<open>s.split('\n')\<close>: the lines of a text. \<open>split_from line s\<close> continues a line
  begun with \<open>line\<close>.
\<close>

fun split_from :: "jsstring \<Rightarrow> jsstring \<Rightarrow> jsstring list" where
  "split_from line [] = [line]"
| "split_from line (c # s) =
     (if c = 0xA then line # split_from [] s else split_from (line @ [c]) s)"

definition split_lines :: "jsstring \<Rightarrow> jsstring list" where
  "split_lines s = split_from [] s"

section \<open>The specification's wording\<close>

text \<open>
  The order of checks as the specification lists it: all the violations of a list, in the
  order non-empty array, then per item (in submission order) id, content, status, then
  the two whole-list properties; and the first of them.
\<close>

definition blank :: "jsstring \<Rightarrow> bool" where
  "blank s = list_all isWhiteSpace s"

definition item_violations :: "nat \<Rightarrow> TodoItem \<Rightarrow> jsstring list" where
  "item_violations i todo =
     (if blank (id_of todo) then [msg_id i] else [])
     @ (if blank (content todo) then [msg_content i] else [])
     @ (if status todo \<noteq> pending \<and> status todo \<noteq> in_progress \<and> status todo \<noteq> completed
        then [msg_status i] else [])"

definition violations :: "TodoItem list \<Rightarrow> jsstring list" where
  "violations todos =
     (if todos = [] then [msg_non_empty_array] else [])
     @ concat (map (\<lambda>(i, todo). item_violations i todo) (enumerate 0 todos))
     @ (if 1 < count_list (map status todos) in_progress then [msg_one_in_progress] else [])
     @ (if distinct (map id_of todos) then [] else [msg_unique_ids])"

definition first_violation :: "TodoItem list \<Rightarrow> jsstring option" where
  "first_violation todos = (case violations todos of [] \<Rightarrow> None | v # vs \<Rightarrow> Some v)"

text \<open>
  \<open>renderSummaryCounts\<close> of the specification: the per-status tallies, by a single pass
  over the list.
\<close>

record counts =
  total :: nat
  completed_count :: nat
  in_progress_count :: nat
  pending_count :: nat

definition count_step :: "counts \<Rightarrow> TodoItem \<Rightarrow> counts" where
  "count_step c todo =
     c\<lparr>total := total c + 1,
       completed_count := completed_count c + (if status todo = completed then 1 else 0),
       in_progress_count := in_progress_count c + (if status todo = in_progress then 1 else 0),
       pending_count := pending_count c + (if status todo = pending then 1 else 0)\<rparr>"

definition renderSummaryCounts :: "TodoItem list \<Rightarrow> counts" where
  "renderSummaryCounts todos =
     foldl count_step
       \<lparr>total = 0, completed_count = 0, in_progress_count = 0, pending_count = 0\<rparr> todos"


text \<open>
  \<open>computeRecencyMarker\<close> of the specification: steps 1 to 3 of \<open>replace\<close>, on the
  prior list and the candidate list.
\<close>

definition computeRecencyMarker :: "TodoItem list \<Rightarrow> TodoItem list \<Rightarrow> jsstring option" where
  "computeRecencyMarker priorList candidateList =
     (case find (\<lambda>t. status t = in_progress) priorList of
        None \<Rightarrow> None
      | Some prior \<Rightarrow>
          map_option id_of
            (find (\<lambda>t. id_of t = id_of prior \<and> status t = completed) candidateList))"

section \<open>Sessions\<close>

text \<open>
  The states a session can reach when every list passed to the tool follows
  \<^verbatim>\<open>TodoItem[]\<close>: the module is loaded, callers build lists, execute invocations, read
  and clear the store, and assign to the arrays and objects they hold. The store never
  hands out its own array (\<open>getCurrentTodos\<close> returns a copy), so a caller cannot assign
  to it.
\<close>

inductive reachable :: "machine \<Rightarrow> bool" where
  loaded: "reachable initial"
| built: "reachable m \<Longrightarrow> reachable (snd (new_list items m))"
| executed: "reachable m \<Longrightarrow> well_typed (arrays m r) \<Longrightarrow> reachable (snd (execute m r))"
| read: "reachable m \<Longrightarrow> reachable (snd (getCurrentTodos m))"
| cleared: "reachable m \<Longrightarrow> reachable (clearTodos m)"
| array_set: "reachable m \<Longrightarrow> r \<noteq> currentTodos m \<Longrightarrow> reachable (caller_sets_array r xs m)"
| object_set: "reachable m \<Longrightarrow> reachable (caller_sets_object a x m)"

text \<open>The invariant of the store: its list holds todo objects, in an allocated array.\<close>

definition store_ok :: "machine \<Rightarrow> bool" where
  "store_ok m \<longleftrightarrow> well_typed (arrays m (currentTodos m)) \<and> currentTodos m < next_addr m"

section \<open>Example inputs\<close>

definition mk_todo :: "string \<Rightarrow> string \<Rightarrow> jsstring \<Rightarrow> TodoItem" where
  "mk_todo i c s = \<lparr>id_of = lit i, content = lit c, status = s\<rparr>"

text \<open>
  A session in which task \<open>a\<close> is in progress, and the list a caller then builds to report
  it completed.
\<close>

definition example_started :: machine where
  "example_started =
     snd (submit [mk_todo ''a'' ''Task 1'' in_progress, mk_todo ''b'' ''Task 2'' pending] initial)"

definition example_update :: "addr \<times> machine" where
  "example_update =
     new_list [mk_todo ''a'' ''Task 1'' completed, mk_todo ''b'' ''Task 2'' in_progress]
       example_started"

text \<open>A list with several violations at once.\<close>

definition example_invalid :: "TodoItem list" where
  "example_invalid =
     [mk_todo ''a'' ''Task 1'' in_progress,
      \<lparr>id_of = lit ''b'', content = lit '' '', status = lit ''done''\<rparr>,
      mk_todo ''a'' ''Task 3'' in_progress]"

text \<open>The session after the update has been executed: task \<open>a\<close> is the newly completed one.\<close>

definition example_completed :: machine where
  "example_completed = snd (execute (snd example_update) (fst example_update))"

text \<open>The two-item input of the specification's end-to-end example.\<close>

definition example_spec :: "TodoItem list" where
  "example_spec =
     [mk_todo ''t1'' ''Write spec'' in_progress, mk_todo ''t2'' ''Review'' pending]"


text \<open>
  A list the validator accepts, whose first content has a line break followed by the
  terminal branch glyph.
\<close>

definition example_multiline :: "TodoItem list" where
  "example_multiline =
     [\<lparr>id_of = lit ''1'', content = lit ''A'' @ [0xA] @ glyph_last @ lit '' x'',
       status = pending\<rparr>,
      mk_todo ''2'' ''B'' pending]"

text \<open>A list of three items, one of each status; the last content ends with a space.\<close>

definition example_three :: "TodoItem list" where
  "example_three =
     [mk_todo ''1'' ''Plan'' completed, mk_todo ''2'' ''Build'' in_progress,
      mk_todo ''3'' ''Ship '' pending]"

section \<open>Auxiliary facts\<close>

lemmas example_defs =
  example_started_def example_update_def mk_todo_def submit_def new_list_def initial_def
  new_array_def execute_def newlyCompleted_def read_prop_def lit_def in_progress_def
  pending_def completed_def Let_def well_typed_def stored_def deref_def

subsection \<open>Strings\<close>

lemma dropWhile_all_iff: "(\<forall>x\<in>set (dropWhile P s). P x) \<longleftrightarrow> (\<forall>x\<in>set s. P x)"
proof
  assume a: "\<forall>x\<in>set (dropWhile P s). P x"
  have "dropWhile P s = []"
  proof (rule ccontr)
    assume n: "dropWhile P s \<noteq> []"
    then have "\<not> P (hd (dropWhile P s))" by (rule hd_dropWhile)
    moreover have "hd (dropWhile P s) \<in> set (dropWhile P s)" using n by simp
    ultimately show False using a by blast
  qed
  then show "\<forall>x\<in>set s. P x" by (simp add: dropWhile_eq_Nil_conv)
next
  assume "\<forall>x\<in>set s. P x"
  then show "\<forall>x\<in>set (dropWhile P s). P x" by (auto dest: set_dropWhileD)
qed

lemma trim_empty_iff: "trim s = [] \<longleftrightarrow> blank s"
  by (simp add: trim_def trimEnd_def blank_def dropWhile_eq_Nil_conv list_all_iff
        dropWhile_all_iff)

lemma empty_or_trim_empty: "s = [] \<or> trim s = [] \<longleftrightarrow> blank s"
  by (auto simp: trim_empty_iff blank_def)

lemma trimEnd_keep:
  assumes "\<not> isWhiteSpace c"
  shows "trimEnd (xs @ c # ys) = xs @ c # trimEnd ys"
proof (cases "\<forall>y \<in> set (rev ys). isWhiteSpace y")
  case True
  have "dropWhile isWhiteSpace (rev ys @ c # rev xs) = dropWhile isWhiteSpace (c # rev xs)"
    by (rule dropWhile_append2) (use True in blast)
  moreover from True have "dropWhile isWhiteSpace (rev ys) = []" by simp
  ultimately show ?thesis using assms by (simp add: trimEnd_def)
next
  case False
  then obtain y where "y \<in> set (rev ys)" "\<not> isWhiteSpace y" by auto
  then have "dropWhile isWhiteSpace (rev ys @ c # rev xs) = dropWhile isWhiteSpace (rev ys) @ c # rev xs"
    by (rule dropWhile_append1)
  then show ?thesis by (simp add: trimEnd_def)
qed

lemma trimEnd_line_break: "trimEnd (s @ [0xA]) = trimEnd s"
  by (simp add: trimEnd_def isWhiteSpace_def)

lemma set_trimEnd: "set (trimEnd s) \<subseteq> set s"
proof -
  have "set (dropWhile isWhiteSpace (rev s)) \<subseteq> set (rev s)" by (rule set_dropWhileD[THEN subsetI]) 
  then show ?thesis by (simp add: trimEnd_def)
qed

text \<open>The decimal notation determines the number.\<close>

lemma toString_not_Nil: "toString n \<noteq> []"
  by (subst toString.simps) simp

lemma digit_inj:
  assumes "a < 10" and "b < 10" and "(of_nat (48 + a) :: 16 word) = of_nat (48 + b)"
  shows "a = b"
proof -
  from assms(3) have "unat (of_nat (48 + a) :: 16 word) = unat (of_nat (48 + b) :: 16 word)"
    by (rule arg_cong)
  then have "(48 + a) mod 65536 = (48 + b) mod 65536"
    by (simp only: unat_of_nat) simp
  with assms(1,2) show ?thesis by simp
qed

lemma toString_inj: "toString a = toString b \<Longrightarrow> a = b"
proof (induction a arbitrary: b rule: toString.induct)
  case (1 n)
  show ?case
  proof (cases "n < 10")
    case True
    then have n: "toString n = [of_nat (48 + n)]" by (subst toString.simps) simp
    have "b < 10"
    proof (rule ccontr)
      assume "\<not> b < 10"
      then have "toString b = toString (b div 10) @ [of_nat (48 + b mod 10)]"
        by (subst toString.simps) simp
      with n "1.prems" toString_not_Nil[of "b div 10"] show False by (cases "toString (b div 10)") auto
    qed
    then have "toString b = [of_nat (48 + b)]" by (subst toString.simps) simp
    with n "1.prems" True \<open>b < 10\<close> show ?thesis by (auto dest: digit_inj)
  next
    case False
    then have n: "toString n = toString (n div 10) @ [of_nat (48 + n mod 10)]"
      by (subst toString.simps) simp
    have "\<not> b < 10"
    proof
      assume "b < 10"
      then have "toString b = [of_nat (48 + b)]" by (subst toString.simps) simp
      with n "1.prems" toString_not_Nil[of "n div 10"] show False by (cases "toString (n div 10)") auto
    qed
    then have b: "toString b = toString (b div 10) @ [of_nat (48 + b mod 10)]"
      by (subst toString.simps) simp
    from n b "1.prems" have "toString (n div 10) = toString (b div 10)"
      and d: "(of_nat (48 + n mod 10) :: 16 word) = of_nat (48 + b mod 10)" by auto
    then have "n div 10 = b div 10" using "1.IH"[OF False] by blast
    moreover have "n mod 10 = b mod 10" using d by (auto intro: digit_inj)
    ultimately show ?thesis by (metis div_mult_mod_eq)
  qed
qed

lemma split_from_no_break:
  "0xA \<notin> set l \<Longrightarrow> split_from line (l @ s) = split_from (line @ l) s"
  by (induction l arbitrary: line) simp_all

lemma split_from_segment:
  "0xA \<notin> set l \<Longrightarrow> split_from line (l @ 0xA # s) = (line @ l) # split_from [] s"
  by (simp add: split_from_no_break)

lemma split_from_end: "0xA \<notin> set l \<Longrightarrow> split_from line l = [line @ l]"
  using split_from_no_break[of l line "[]"] by simp

lemma split_from_segments:
  "(\<forall>l \<in> set ls. 0xA \<notin> set l) \<Longrightarrow>
     split_from [] (concat (map (\<lambda>l. l @ [0xA]) ls) @ s) = ls @ split_from [] s"
proof (induction ls)
  case Nil
  then show ?case by simp
next
  case (Cons l ls)
  then have "split_from [] (l @ 0xA # (concat (map (\<lambda>l. l @ [0xA]) ls) @ s))
      = l # split_from [] (concat (map (\<lambda>l. l @ [0xA]) ls) @ s)"
    using split_from_segment[of l "[]"] by simp
  with Cons show ?case by simp
qed

lemma status_values_differ:
  "in_progress \<noteq> completed" "pending \<noteq> completed" "pending \<noteq> in_progress"
  by (simp_all add: in_progress_def completed_def pending_def lit_def)

subsection \<open>Validator\<close>

lemma validateItems_first:
  "validateItems i todos =
     (case concat (map (\<lambda>(i, todo). item_violations i todo) (enumerate i todos)) of
        [] \<Rightarrow> None | v # vs \<Rightarrow> Some v)"
  by (induction todos arbitrary: i)
     (auto simp: item_violations_def empty_or_trim_empty split: list.splits)

lemma length_filter_status:
  "length (filter (\<lambda>todo. status todo = s) todos) = count_list (map status todos) s"
  by (induction todos) auto

lemma length_card_distinct: "length xs \<noteq> card (set xs) \<longleftrightarrow> \<not> distinct xs"
  using card_distinct distinct_card by metis

lemma accepted_ids_distinct:
  "validateToolParams schemaValidate todos = None \<Longrightarrow> distinct (map id_of todos)"
  by (auto simp: validateToolParams_def Let_def truthy_def length_card_distinct
        split: if_splits option.splits)


subsection \<open>Renderer\<close>

lemma forEachTodo_concat:
  "forEachTodo mrc n i ts d = d @ concat (map (\<lambda>(j, t). todoLine mrc n j t) (enumerate i ts))"
  by (induction ts arbitrary: i d) simp_all

lemma statusIcon_eq:
  "statusIcon t = (if status t = completed then glyph_checked_box else glyph_empty_box)"
  using status_values_differ(1) by (auto simp: statusIcon_def)

lemma todoLine_mid:
  "j \<noteq> n - 1 \<Longrightarrow> todoLine mrc n j t =
     glyph_mid @ lit '' '' @ statusIcon t @ lit '' '' @ styledContent mrc t @ [0xA]"
  by (simp add: todoLine_def)

lemma todoLine_last:
  "todoLine mrc (Suc n) n t =
     glyph_last @ lit '' '' @ statusIcon t @ lit '' '' @ styledContent mrc t @ [0xA]"
  by (simp add: todoLine_def)

lemma map_enumerate_snd: "map (\<lambda>(j, t). g t) (enumerate i xs) = map g xs"
  by (induction xs arbitrary: i) simp_all

lemma lines_before_last:
  "concat (map (\<lambda>(j, t). todoLine mrc (Suc (length xs)) j t) (enumerate 0 xs)) =
   concat (map (\<lambda>t. glyph_mid @ lit '' '' @ statusIcon t @ lit '' '' @ styledContent mrc t @ [0xA]) xs)"
proof -
  have "map (\<lambda>(j, t). todoLine mrc (Suc (length xs)) j t) (enumerate 0 xs) =
        map (\<lambda>(j, t). glyph_mid @ lit '' '' @ statusIcon t @ lit '' '' @ styledContent mrc t @ [0xA])
          (enumerate 0 xs)"
    by (rule map_cong) (auto simp: in_set_enumerate_eq todoLine_mid)
  then show ?thesis by (simp only: map_enumerate_snd)
qed

lemma lines_of_list:
  "concat (map (\<lambda>(j, t). todoLine mrc (length (xs @ [x])) j t) (enumerate 0 (xs @ [x]))) =
     concat (map (\<lambda>t. glyph_mid @ lit '' '' @ statusIcon t @ lit '' '' @ styledContent mrc t @ [0xA])
              xs)
     @ glyph_last @ lit '' '' @ statusIcon x @ lit '' '' @ styledContent mrc x @ [0xA]"
  by (simp add: enumerate_append_eq lines_before_last todoLine_last)

lemma box_not_blank:
  "\<not> isWhiteSpace 0x2DC" "\<not> isWhiteSpace 0x2018" "\<not> isWhiteSpace 0xF0"
  by (simp_all add: isWhiteSpace_def)

lemma trimEnd_after_icon:
  "trimEnd (xs @ statusIcon t @ ys) = xs @ statusIcon t @ trimEnd ys"
proof (cases "status t = completed")
  case True
  then have "statusIcon t = [0xE2, 0x2DC] @ [0x2018]" by (simp add: statusIcon_eq glyph_checked_box_def)
  then show ?thesis using trimEnd_keep[OF box_not_blank(2), of "xs @ [0xE2, 0x2DC]" ys] by simp
next
  case False
  then have "statusIcon t = [0xE2] @ [0x2DC]" by (simp add: statusIcon_eq glyph_empty_box_def)
  then show ?thesis using trimEnd_keep[OF box_not_blank(1), of "xs @ [0xE2]" ys] by simp
qed

lemma display_of_snoc:
  "generateTodoDisplay mrc (xs @ [x]) =
     glyph_title @ lit '' Todo List'' @ [0xA]
     @ concat (map (\<lambda>t. glyph_mid @ lit '' '' @ statusIcon t @ lit '' '' @ styledContent mrc t @ [0xA])
                xs)
     @ glyph_last @ lit '' '' @ statusIcon x @ trimEnd (lit '' '' @ styledContent mrc x @ [0xA])"
proof -
  let ?mid = "\<lambda>t. glyph_mid @ lit '' '' @ statusIcon t @ lit '' '' @ styledContent mrc t @ [0xA]"
  let ?head = "glyph_title @ lit '' Todo List'' @ [0xA] @ concat (map ?mid xs)
                 @ glyph_last @ lit '' ''"
  let ?tail = "lit '' '' @ styledContent mrc x @ [0xA]"
  have "forEachTodo mrc (length (xs @ [x])) 0 (xs @ [x]) (glyph_title @ lit '' Todo List'' @ [0xA])
          = ?head @ statusIcon x @ ?tail"
    by (simp only: forEachTodo_concat lines_of_list append_assoc)
  moreover have "dropWhile isWhiteSpace (?head @ statusIcon x @ ?tail)
          = ?head @ statusIcon x @ ?tail"
    using box_not_blank(3) by (simp add: glyph_title_def)
  ultimately have "generateTodoDisplay mrc (xs @ [x]) = trimEnd (?head @ statusIcon x @ ?tail)"
    by (simp add: generateTodoDisplay_def trim_def)
  also have "\<dots> = ?head @ statusIcon x @ trimEnd ?tail"
    by (rule trimEnd_after_icon)
  finally show ?thesis by simp
qed

lemma no_break_in_glyphs:
  "0xA \<notin> set glyph_title" "0xA \<notin> set glyph_mid" "0xA \<notin> set glyph_last"
  "0xA \<notin> set glyph_checked_box" "0xA \<notin> set glyph_empty_box"
  "0xA \<notin> set (lit '' '')" "0xA \<notin> set (lit '' Todo List'')"
  by (simp_all add: glyph_title_def glyph_mid_def glyph_last_def glyph_checked_box_def
        glyph_empty_box_def lit_def)

lemma no_break_in_styledContent:
  "0xA \<notin> set (content t) \<Longrightarrow> 0xA \<notin> set (styledContent mrc t)"
  by (simp add: styledContent_def esc_def lit_def)

lemma display_text:
  assumes "todos \<noteq> []"
  shows "generateTodoDisplay mrc todos =
     glyph_title @ lit '' Todo List'' @ [0xA]
     @ concat (map (\<lambda>todo. glyph_mid @ lit '' ''
                      @ (if status todo = completed then glyph_checked_box else glyph_empty_box)
                      @ lit '' '' @ styledContent mrc todo @ [0xA])
                (butlast todos))
     @ glyph_last @ lit '' ''
     @ (if status (last todos) = completed then glyph_checked_box else glyph_empty_box)
     @ trimEnd (lit '' '' @ styledContent mrc (last todos) @ [0xA])
   \<and> glyph_last \<noteq> glyph_mid \<and> glyph_checked_box \<noteq> glyph_empty_box"
proof -
  from assms have "todos = butlast todos @ [last todos]" by simp
  then have "generateTodoDisplay mrc todos = generateTodoDisplay mrc (butlast todos @ [last todos])"
    by simp
  moreover have "glyph_last \<noteq> glyph_mid" "glyph_checked_box \<noteq> glyph_empty_box"
    by (simp_all add: glyph_last_def glyph_mid_def glyph_checked_box_def glyph_empty_box_def)
  ultimately show ?thesis by (simp only: display_of_snoc statusIcon_eq) simp
qed

text \<open>
  Contents are written as they are. When no content contains a line break, the lines of
  the display are the title and one line per item.
\<close>

lemma display_lines:
  assumes "todos \<noteq> []" and "\<forall>t \<in> set todos. 0xA \<notin> set (content t)"
  shows "split_lines (generateTodoDisplay mrc todos) =
     (glyph_title @ lit '' Todo List'')
     # map (\<lambda>t. glyph_mid @ lit '' '' @ statusIcon t @ lit '' '' @ styledContent mrc t)
         (butlast todos)
     @ [glyph_last @ lit '' '' @ statusIcon (last todos)
          @ trimEnd (lit '' '' @ styledContent mrc (last todos))]"
proof -
  let ?seg = "\<lambda>t. glyph_mid @ lit '' '' @ statusIcon t @ lit '' '' @ styledContent mrc t"
  let ?end = "glyph_last @ lit '' '' @ statusIcon (last todos)
                @ trimEnd (lit '' '' @ styledContent mrc (last todos))"
  let ?ls = "(glyph_title @ lit '' Todo List'') # map ?seg (butlast todos)"
  from assms(1) have "todos = butlast todos @ [last todos]" by simp
  then have "generateTodoDisplay mrc todos = generateTodoDisplay mrc (butlast todos @ [last todos])"
    by simp
  also have "\<dots> = concat (map (\<lambda>l. l @ [0xA]) ?ls) @ ?end"
    using trimEnd_line_break[of "lit '' '' @ styledContent mrc (last todos)"]
    by (simp add: display_of_snoc comp_def)
  finally have d: "generateTodoDisplay mrc todos = concat (map (\<lambda>l. l @ [0xA]) ?ls) @ ?end" .
  have icon: "0xA \<notin> set (statusIcon t)" for t
    by (simp add: statusIcon_eq no_break_in_glyphs)
  have "\<forall>t \<in> set (butlast todos). 0xA \<notin> set (content t)"
    using assms(2) by (auto dest: in_set_butlastD)
  then have ls: "\<forall>l \<in> set ?ls. 0xA \<notin> set l"
    by (auto simp: no_break_in_glyphs icon no_break_in_styledContent)
  have "last todos \<in> set todos" using assms(1) by simp
  then have "0xA \<notin> set (lit '' '' @ styledContent mrc (last todos))"
    using assms(2) by (simp add: no_break_in_glyphs no_break_in_styledContent)
  then have "0xA \<notin> set (trimEnd (lit '' '' @ styledContent mrc (last todos)))"
    using set_trimEnd by blast
  then have e: "0xA \<notin> set ?end" by (simp add: no_break_in_glyphs icon)
  show ?thesis
    unfolding split_lines_def d
    by (simp only: split_from_segments[OF ls] split_from_end[OF e] append_Nil append_Cons)
qed

lemma foldl_count_step:
  "foldl count_step c todos =
     \<lparr>total = total c + length todos,
      completed_count = completed_count c + length (filter (\<lambda>t. status t = completed) todos),
      in_progress_count =
        in_progress_count c + length (filter (\<lambda>t. status t = in_progress) todos),
      pending_count = pending_count c + length (filter (\<lambda>t. status t = pending) todos)\<rparr>"
  by (induction todos arbitrary: c) (simp_all add: count_step_def)

lemma renderSummaryCounts_eq:
  "renderSummaryCounts todos =
     \<lparr>total = length todos,
      completed_count = length (filter (\<lambda>t. status t = completed) todos),
      in_progress_count = length (filter (\<lambda>t. status t = in_progress) todos),
      pending_count = length (filter (\<lambda>t. status t = pending) todos)\<rparr>"
  by (simp add: renderSummaryCounts_def foldl_count_step)

subsection \<open>Lists of todo objects\<close>

lemma read_all_well_typed:
  "well_typed es \<Longrightarrow> read_all m name es = Inr (deref m es)"
  by (induction es) (auto simp: well_typed_def deref_def read_prop_def split: elem.splits)

lemma find_todo_well_typed:
  "well_typed es \<Longrightarrow> find_todo m name P es = Inr (find P (deref m es))"
  by (induction es) (auto simp: well_typed_def deref_def read_prop_def split: elem.splits)

lemma newlyCompleted_well_typed:
  assumes "well_typed (arrays m (currentTodos m))" and "well_typed (arrays m r)"
  shows "newlyCompleted m r = Inr (computeRecencyMarker (stored m) (deref m (arrays m r)))"
  using assms
  by (simp add: newlyCompleted_def computeRecencyMarker_def stored_def find_todo_well_typed
        split: option.splits)

lemma execute_well_typed:
  assumes "well_typed (arrays m (currentTodos m))" and "well_typed (arrays m r)"
  shows "execute m r =
     (\<lparr>llmContent = Success (lit ''Todo list updated successfully'') (deref m (arrays m r))
                      (generateSummary (deref m (arrays m r))),
       returnDisplay =
         generateTodoDisplay (computeRecencyMarker (stored m) (deref m (arrays m r)))
           (deref m (arrays m r))\<rparr>,
      m\<lparr>mostRecentlyCompletedId := computeRecencyMarker (stored m) (deref m (arrays m r)),
        arrays := (arrays m)(next_addr m := arrays m r),
        next_addr := Suc (next_addr m),
        currentTodos := next_addr m\<rparr>)"
  using assms
  by (simp add: execute_def newlyCompleted_well_typed new_array_def Let_def
        read_all_well_typed deref_def)

lemma deref_same_objects: "objects m' = objects m \<Longrightarrow> deref m' es = deref m es"
  by (simp add: deref_def cong: elem.case_cong)

lemma deref_Cons:
  "deref m (e # es) = (case e of Null \<Rightarrow> [] | Obj a \<Rightarrow> [objects m a]) @ deref m es"
  by (simp add: deref_def)

lemma mem_deref_tail: "x \<in> set (deref M es) \<Longrightarrow> x \<in> set (deref M (e # es))"
  by (simp add: deref_Cons)

lemma mem_deref_head: "objects M a = x \<Longrightarrow> x \<in> set (deref M (Obj a # es))"
  by (simp add: deref_Cons)

lemma mem_deref: "Obj a \<in> set es \<Longrightarrow> objects M a \<in> set (deref M es)"
proof (induction es)
  case Nil
  then show ?case by simp
next
  case (Cons e es)
  show ?case
  proof (cases "e = Obj a")
    case True
    then show ?thesis by (simp add: mem_deref_head)
  next
    case False
    with Cons have "objects M a \<in> set (deref M es)" by auto
    then show ?thesis by (rule mem_deref_tail)
  qed
qed

lemma stored_array_set:
  "r \<noteq> currentTodos m \<Longrightarrow> stored (caller_sets_array r xs m) = stored m"
  by (simp add: stored_def caller_sets_array_def deref_def cong: elem.case_cong)

lemma stored_object_set:
  assumes "Obj a \<in> set (arrays m (currentTodos m))"
  shows "x \<in> set (stored (caller_sets_object a x m))"
proof -
  let ?M = "caller_sets_object a x m"
  have "Obj a \<in> set (arrays ?M (currentTodos ?M))"
    using assms by (simp add: caller_sets_object_def)
  then have "objects ?M a \<in> set (deref ?M (arrays ?M (currentTodos ?M)))" by (rule mem_deref)
  moreover have "objects ?M a = x" by (simp add: caller_sets_object_def)
  ultimately show ?thesis by (simp only: stored_def)
qed

lemma computeRecencyMarker_same:
  assumes "distinct (map id_of ts)"
  shows "computeRecencyMarker ts ts = None"
proof (cases "find (\<lambda>t. status t = in_progress) ts")
  case None
  then show ?thesis by (simp add: computeRecencyMarker_def)
next
  case (Some prior)
  then have prior: "prior \<in> set ts" "status prior = in_progress"
    by (auto simp: find_Some_iff)
  have "\<not> (\<exists>t \<in> set ts. id_of t = id_of prior \<and> status t = completed)"
  proof
    assume "\<exists>t \<in> set ts. id_of t = id_of prior \<and> status t = completed"
    then obtain t where t: "t \<in> set ts" "id_of t = id_of prior" "status t = completed" by blast
    from assms have "inj_on id_of (set ts)" by (simp add: distinct_map)
    with t prior have "t = prior" by (auto dest: inj_onD)
    with t prior show False using status_values_differ by simp
  qed
  then have "find (\<lambda>t. id_of t = id_of prior \<and> status t = completed) ts = None"
    by (simp add: find_None_iff)
  with Some show ?thesis by (simp add: computeRecencyMarker_def)
qed

lemma execute_twice:
  assumes "well_typed (arrays m (currentTodos m))" and "well_typed (arrays m r)"
  shows "mostRecentlyCompletedId (snd (execute (snd (execute m r)) r)) =
           computeRecencyMarker (deref m (arrays m r)) (deref m (arrays m r))"
proof -
  let ?m1 = "snd (execute m r)"
  have m1: "?m1 = m\<lparr>mostRecentlyCompletedId := computeRecencyMarker (stored m) (deref m (arrays m r)),
        arrays := (arrays m)(next_addr m := arrays m r),
        next_addr := Suc (next_addr m),
        currentTodos := next_addr m\<rparr>"
    by (simp add: execute_well_typed[OF assms])
  have cur: "arrays ?m1 (currentTodos ?m1) = arrays m r" by (simp add: m1)
  have par: "arrays ?m1 r = arrays m r" by (simp add: m1)
  have obj: "objects ?m1 = objects m" by (simp add: m1)
  have wt1: "well_typed (arrays ?m1 (currentTodos ?m1))" using assms(2) by (simp only: cur)
  have wt2: "well_typed (arrays ?m1 r)" using assms(2) by (simp only: par)
  have "stored ?m1 = deref m (arrays m r)" by (simp add: stored_def cur deref_same_objects[OF obj])
  moreover have "deref ?m1 (arrays ?m1 r) = deref m (arrays m r)" by (simp add: par deref_same_objects[OF obj])
  ultimately show ?thesis
    by (simp add: execute_well_typed[OF wt1 wt2])
qed

text \<open>
  The \<^verbatim>\<open>catch\<close> branch is taken when an element is \<^verbatim>\<open>null\<close>; the assignment to
  \<^verbatim>\<open>currentTodos\<close> has happened by then.
\<close>

lemma execute_null_fails:
  "arrays m r = [Null] \<Longrightarrow> arrays m (currentTodos m) = [] \<Longrightarrow>
   fst (execute m r) = catch_result (TypeError (lit ''Cannot read properties of null (reading '' @ [0x27] @ lit ''status'' @ [0x27] @ lit '')''))
   \<and> arrays (snd (execute m r)) (currentTodos (snd (execute m r))) = [Null]"
  by (simp add: execute_def newlyCompleted_def new_array_def read_prop_def)

subsection \<open>Sessions\<close>

lemma new_objects_frame:
  "new_objects items m = (es, m') \<Longrightarrow>
     arrays m' = arrays m \<and> currentTodos m' = currentTodos m \<and> next_addr m \<le> next_addr m'
     \<and> mostRecentlyCompletedId m' = mostRecentlyCompletedId m"
proof (induction items arbitrary: m es m')
  case Nil
  then show ?case by simp
next
  case (Cons x items)
  let ?m1 = "m\<lparr>objects := (objects m)(next_addr m := x), next_addr := Suc (next_addr m)\<rparr>"
  obtain es2 m2 where r: "new_objects items ?m1 = (es2, m2)" by (cases "new_objects items ?m1")
  with Cons.prems have "m' = m2" by (simp add: Let_def)
  with Cons.IH[OF r] show ?case by simp
qed

lemma new_list_store_ok: "store_ok m \<Longrightarrow> store_ok (snd (new_list items m))"
proof -
  assume ok: "store_ok m"
  obtain es m1 where r: "new_objects items m = (es, m1)" by (cases "new_objects items m")
  from new_objects_frame[OF r] ok show ?thesis
    by (auto simp: new_list_def r new_array_def store_ok_def)
qed

lemma execute_store_ok:
  "store_ok m \<Longrightarrow> well_typed (arrays m r) \<Longrightarrow> store_ok (snd (execute m r))"
  by (simp add: store_ok_def execute_well_typed)

lemma reachable_store_ok: "reachable m \<Longrightarrow> store_ok m"
proof (induction rule: reachable.induct)
  case loaded
  then show ?case by (simp add: store_ok_def initial_def well_typed_def)
next
  case (built m items)
  then show ?case by (simp add: new_list_store_ok)
next
  case (executed m r)
  then show ?case by (simp add: execute_store_ok)
next
  case (read m)
  then show ?case by (auto simp: store_ok_def getCurrentTodos_def new_array_def)
next
  case (cleared m)
  then show ?case by (simp add: store_ok_def clearTodos_def new_array_def well_typed_def)
next
  case (array_set m r xs)
  then show ?case by (simp add: store_ok_def caller_sets_array_def)
next
  case (object_set m a x)
  then show ?case by (simp add: store_ok_def caller_sets_object_def)
qed

subsection \<open>The example sessions\<close>

lemma example_update_stored:
  "stored (snd example_update) =
     [mk_todo ''a'' ''Task 1'' in_progress, mk_todo ''b'' ''Task 2'' pending]"
  by (simp add: example_defs)

lemma example_update_list:
  "deref (snd example_update) (arrays (snd example_update) (fst example_update)) =
     [mk_todo ''a'' ''Task 1'' completed, mk_todo ''b'' ''Task 2'' in_progress]"
  by (simp add: example_defs)

lemma example_update_well_typed:
  "well_typed (arrays (snd example_update) (currentTodos (snd example_update)))"
  "well_typed (arrays (snd example_update) (fst example_update))"
  by (simp_all add: example_defs)

lemma example_update_array:
  "arrays (snd example_update) (fst example_update) = [Obj 5, Obj 6]"
  "arrays (snd example_update) 7 = [Obj 5, Obj 6]"
  by (simp_all add: example_defs)

lemma example_update_objects:
  "objects (snd example_update) 5 = mk_todo ''a'' ''Task 1'' completed"
  "objects (snd example_update) 6 = mk_todo ''b'' ''Task 2'' in_progress"
  by (simp_all add: example_defs)

lemma example_update_addresses:
  "fst example_update = 7" "next_addr (snd example_update) = 8"
  by (simp_all add: example_defs)

lemma example_update_reachable: "reachable (snd example_update)"
proof -
  let ?l = "new_list [mk_todo ''a'' ''Task 1'' in_progress, mk_todo ''b'' ''Task 2'' pending] initial"
  have 1: "reachable (snd ?l)" by (rule reachable.built[OF reachable.loaded])
  have 2: "well_typed (arrays (snd ?l) (fst ?l))" by (simp add: example_defs)
  have "example_started = snd (execute (snd ?l) (fst ?l))"
    by (simp add: example_started_def submit_def split_beta)
  with reachable.executed[OF 1 2] have "reachable example_started" by simp
  then show ?thesis unfolding example_update_def by (rule reachable.built)
qed

lemma example_completed_marker: "mostRecentlyCompletedId example_completed = Some (lit ''a'')"
  by (simp add: example_completed_def execute_well_typed[OF example_update_well_typed]
        example_update_stored example_update_list computeRecencyMarker_def)
     (simp add: mk_todo_def lit_def in_progress_def completed_def)

lemma example_completed_eq:
  "example_completed = (snd example_update)
     \<lparr>mostRecentlyCompletedId := Some (lit ''a''),
      arrays := (arrays (snd example_update))
                  (next_addr (snd example_update) := arrays (snd example_update) (fst example_update)),
      next_addr := Suc (next_addr (snd example_update)),
      currentTodos := next_addr (snd example_update)\<rparr>"
  using example_completed_marker
  by (simp add: example_completed_def execute_well_typed[OF example_update_well_typed])

lemma example_completed_stored:
  "stored example_completed = [mk_todo ''a'' ''Task 1'' completed, mk_todo ''b'' ''Task 2'' in_progress]"
  by (simp add: example_completed_eq stored_def example_update_array deref_def example_update_objects)

lemma example_completed_array:
  "arrays example_completed (fst example_update) = [Obj 5, Obj 6]"
  "arrays example_completed (currentTodos example_completed) = [Obj 5, Obj 6]"
  by (simp_all add: example_completed_eq example_update_array example_update_addresses)

lemma example_completed_changed:
  "stored (caller_sets_object 5 (mk_todo ''a'' ''Task 1'' pending) example_completed) =
     [mk_todo ''a'' ''Task 1'' pending, mk_todo ''b'' ''Task 2'' in_progress]"
  by (simp add: stored_def caller_sets_object_def example_completed_array deref_def)
     (simp add: example_completed_eq example_update_objects)

lemma example_snapshot:
  "arrays (snd (getCurrentTodos example_completed)) (fst (getCurrentTodos example_completed))
     = [Obj 5, Obj 6]"
  "arrays (snd (getCurrentTodos example_completed))
     (currentTodos (snd (getCurrentTodos example_completed))) = [Obj 5, Obj 6]"
  "objects (snd (getCurrentTodos example_completed)) = objects (snd example_update)"
  by (simp_all add: getCurrentTodos_def new_array_def example_completed_array)
     (simp_all add: example_completed_eq example_update_array)

lemma example_snapshot_stored:
  "stored (snd (getCurrentTodos example_completed)) =
     [mk_todo ''a'' ''Task 1'' completed, mk_todo ''b'' ''Task 2'' in_progress]"
  by (simp add: stored_def example_snapshot deref_def example_update_objects)

lemma example_snapshot_changed:
  "stored (caller_sets_object 5 (mk_todo ''a'' ''Task 1'' pending)
            (snd (getCurrentTodos example_completed))) =
     [mk_todo ''a'' ''Task 1'' pending, mk_todo ''b'' ''Task 2'' in_progress]"
  by (simp add: stored_def caller_sets_object_def example_snapshot deref_def
        example_update_objects)

lemma example_update_accepted:
  "validateToolParams (\<lambda>todos. None)
     (deref (snd example_update) (arrays (snd example_update) (fst example_update))) = None"
  by (simp add: example_update_list validateToolParams_def truthy_def mk_todo_def lit_def
        trim_def trimEnd_def isWhiteSpace_def completed_def in_progress_def pending_def
        card_set)

lemma example_multiline_accepted:
  "validateToolParams (\<lambda>todos. None) example_multiline = None"
  by (simp add: example_multiline_def validateToolParams_def truthy_def mk_todo_def lit_def
        trim_def trimEnd_def isWhiteSpace_def completed_def in_progress_def pending_def
        card_set glyph_last_def)

section \<open>The recency marker\<close>

text \<open>
  Claim C1. For every execute call on lists of todo objects: let prior be the (first) item
  with status \<open>in_progress\<close> in the stored list before the update. If prior exists and
  the candidate list contains an item with the same id and status \<open>completed\<close>, then
  after the call the marker is that id; if prior exists and the candidate has no such
  item, the marker is none; if there is no prior, the marker is none.
\<close>

theorem execute_sets_recency_marker:
  assumes "well_typed (arrays m (currentTodos m))" and "well_typed (arrays m r)"
  shows "mostRecentlyCompletedId (snd (execute m r)) =
     (case find (\<lambda>t. status t = in_progress) (stored m) of
        None \<Rightarrow> None
      | Some prior \<Rightarrow>
          if (\<exists>t \<in> set (deref m (arrays m r)). id_of t = id_of prior \<and> status t = completed)
          then Some (id_of prior) else None)"
proof (cases "find (\<lambda>t. status t = in_progress) (stored m)")
  case None
  then show ?thesis by (simp add: execute_well_typed[OF assms] computeRecencyMarker_def)
next
  case (Some prior)
  let ?P = "\<lambda>t. id_of t = id_of prior \<and> status t = completed"
  show ?thesis
  proof (cases "find ?P (deref m (arrays m r))")
    case None
    then have "\<not> (\<exists>t \<in> set (deref m (arrays m r)). ?P t)" by (simp add: find_None_iff)
    with None Some show ?thesis
      by (simp add: execute_well_typed[OF assms] computeRecencyMarker_def)
  next
    case found: (Some t)
    then have "t \<in> set (deref m (arrays m r))" and "?P t" by (auto simp: find_Some_iff)
    then have "\<exists>t \<in> set (deref m (arrays m r)). ?P t" and "id_of t = id_of prior" by auto
    with found Some show ?thesis
      by (simp add: execute_well_typed[OF assms] computeRecencyMarker_def)
  qed
qed

theorem execute_sets_recency_marker_witness:
  "well_typed (arrays (snd example_update) (currentTodos (snd example_update)))
   \<and> well_typed (arrays (snd example_update) (fst example_update))
   \<and> find (\<lambda>t. status t = in_progress) (stored (snd example_update))
       = Some (mk_todo ''a'' ''Task 1'' in_progress)
   \<and> mostRecentlyCompletedId (snd (execute (snd example_update) (fst example_update)))
       = Some (lit ''a'')"
  using execute_sets_recency_marker[OF example_update_well_typed] example_update_well_typed
  by (simp add: example_update_stored example_update_list)
     (simp add: mk_todo_def lit_def in_progress_def completed_def)

section \<open>Clearing the store\<close>

text \<open>
  Claim C2, as amended. In every state, \<open>clearTodos\<close> makes the stored list empty and
  leaves the recency marker as it was.
\<close>

theorem clearTodos_empties_list:
  "stored (clearTodos m) = [] \<and> arrays (clearTodos m) (currentTodos (clearTodos m)) = []
   \<and> mostRecentlyCompletedId (clearTodos m) = mostRecentlyCompletedId m"
  by (simp add: clearTodos_def new_array_def stored_def deref_def)

text \<open>
  The claim as stated fails in the session where task \<open>a\<close> has just been completed:
  after \<open>clearTodos\<close> the marker is still \<open>a\<close>.
\<close>

theorem clearTodos_counterexample:
  "\<not> (stored (clearTodos example_completed) = []
      \<and> mostRecentlyCompletedId (clearTodos example_completed) = None)"
  by (simp add: clearTodos_def new_array_def example_completed_marker)

section \<open>Rendering the empty list\<close>

text \<open>
  Claim C3, as amended. Rendering an empty list returns a fixed message, whatever the
  recency marker is; the message has two lines, the title line and the line saying that
  no todos are tracked.
\<close>

theorem empty_list_display:
  "generateTodoDisplay mostRecentlyCompleted [] =
     glyph_title @ lit '' Todo List'' @ [0xA] @ glyph_last @ lit '' No todos currently tracked.''
   \<and> split_lines (generateTodoDisplay mostRecentlyCompleted []) =
       [glyph_title @ lit '' Todo List'', glyph_last @ lit '' No todos currently tracked.'']"
  by (simp add: generateTodoDisplay_def no_todos_display_def glyph_title_def glyph_last_def
        lit_def split_lines_def)

text \<open>The claim as stated, one line exactly, fails: the message contains a line break.\<close>

theorem empty_list_display_counterexample:
  "\<not> (length (split_lines (generateTodoDisplay None [])) = 1)"
  by (simp add: generateTodoDisplay_def no_todos_display_def glyph_title_def glyph_last_def
        lit_def split_lines_def)

section \<open>Copies of the list\<close>

text \<open>
  Claim C4, as amended. When \<open>execute\<close> replaces the list, the store's list becomes a
  new array holding the same item objects as the candidate: the array is copied, the
  items are referenced. A later assignment to the caller's array cannot change the
  stored list, and an assignment to one of its item objects shows in the stored list.
  Likewise \<open>getCurrentTodos\<close> returns a new array holding the store's item objects: an
  assignment to the returned array leaves the stored list as it is, an assignment to one
  of its item objects shows in the stored list.
\<close>

theorem copies_share_the_items:
  assumes "reachable m" and "well_typed (arrays m r)" and "r < next_addr m"
  shows "currentTodos (snd (execute m r)) \<noteq> r
    \<and> arrays (snd (execute m r)) (currentTodos (snd (execute m r))) = arrays m r
    \<and> (\<forall>xs. stored (caller_sets_array r xs (snd (execute m r))) = stored (snd (execute m r)))
    \<and> (\<forall>a x. Obj a \<in> set (arrays m r) \<longrightarrow>
          x \<in> set (stored (caller_sets_object a x (snd (execute m r)))))
    \<and> fst (getCurrentTodos m) \<noteq> currentTodos (snd (getCurrentTodos m))
    \<and> arrays (snd (getCurrentTodos m)) (fst (getCurrentTodos m)) = arrays m (currentTodos m)
    \<and> stored (snd (getCurrentTodos m)) = stored m
    \<and> (\<forall>xs. stored (caller_sets_array (fst (getCurrentTodos m)) xs (snd (getCurrentTodos m)))
          = stored m)
    \<and> (\<forall>a x. Obj a \<in> set (arrays (snd (getCurrentTodos m)) (fst (getCurrentTodos m))) \<longrightarrow>
          x \<in> set (stored (caller_sets_object a x (snd (getCurrentTodos m)))))"
proof -
  from assms(1) have ok: "well_typed (arrays m (currentTodos m))" "currentTodos m < next_addr m"
    using reachable_store_ok by (simp_all add: store_ok_def)
  let ?m1 = "snd (execute m r)"
  have m1: "?m1 = m\<lparr>mostRecentlyCompletedId := computeRecencyMarker (stored m) (deref m (arrays m r)),
        arrays := (arrays m)(next_addr m := arrays m r),
        next_addr := Suc (next_addr m),
        currentTodos := next_addr m\<rparr>"
    by (simp add: execute_well_typed[OF ok(1) assms(2)])
  have e1: "currentTodos ?m1 \<noteq> r" using assms(3) by (simp add: m1)
  have e2: "arrays ?m1 (currentTodos ?m1) = arrays m r" by (simp add: m1)
  have e3: "\<forall>xs. stored (caller_sets_array r xs ?m1) = stored ?m1"
    using e1 by (simp add: stored_array_set)
  have e4: "\<forall>a x. Obj a \<in> set (arrays m r) \<longrightarrow> x \<in> set (stored (caller_sets_object a x ?m1))"
    using stored_object_set[of _ ?m1] by (simp add: e2)
  let ?s = "fst (getCurrentTodos m)" and ?m2 = "snd (getCurrentTodos m)"
  have s: "?s = next_addr m" by (simp add: getCurrentTodos_def new_array_def)
  have m2: "?m2 = m\<lparr>arrays := (arrays m)(next_addr m := arrays m (currentTodos m)),
        next_addr := Suc (next_addr m)\<rparr>"
    by (simp add: getCurrentTodos_def new_array_def)
  have g1: "?s \<noteq> currentTodos ?m2" using ok(2) by (simp add: s m2)
  have g2: "arrays ?m2 ?s = arrays m (currentTodos m)" by (simp add: s m2)
  have g2': "arrays ?m2 (currentTodos ?m2) = arrays m (currentTodos m)" using ok(2) by (simp add: m2)
  have g3: "stored ?m2 = stored m"
    using ok(2) by (simp add: stored_def m2 deref_def cong: elem.case_cong)
  have g4: "\<forall>xs. stored (caller_sets_array ?s xs ?m2) = stored m"
    using g1 by (simp add: stored_array_set g3)
  have g5: "\<forall>a x. Obj a \<in> set (arrays ?m2 ?s) \<longrightarrow> x \<in> set (stored (caller_sets_object a x ?m2))"
    using stored_object_set[of _ ?m2] by (simp add: g2 g2')
  from e1 e2 e3 e4 g1 g2 g3 g4 g5 show ?thesis by blast
qed

theorem copies_share_the_items_witness:
  "reachable (snd example_update) \<and> well_typed (arrays (snd example_update) (fst example_update))
   \<and> fst example_update < next_addr (snd example_update)
   \<and> currentTodos example_completed \<noteq> fst example_update
   \<and> arrays example_completed (currentTodos example_completed) = [Obj 5, Obj 6]
   \<and> stored (caller_sets_array (fst example_update) [] example_completed)
       = [mk_todo ''a'' ''Task 1'' completed, mk_todo ''b'' ''Task 2'' in_progress]"
proof -
  have lt: "fst example_update < next_addr (snd example_update)"
    by (simp add: example_update_addresses)
  show ?thesis
    using copies_share_the_items[OF example_update_reachable example_update_well_typed(2) lt]
      example_update_reachable example_update_well_typed(2) lt
    by (simp add: example_completed_def[symmetric] example_completed_stored example_update_array)
qed

text \<open>
  The claim as stated, that the items are copied too, fails in the example session: the
  caller's object at address 5 is an element of the list it passed and of the snapshot
  it gets back, and assigning to it changes the stored list.
\<close>

theorem copies_share_the_items_counterexample:
  "Obj 5 \<in> set (arrays example_completed (fst example_update))
   \<and> stored (caller_sets_object 5 (mk_todo ''a'' ''Task 1'' pending) example_completed)
       \<noteq> stored example_completed
   \<and> Obj 5 \<in> set (arrays (snd (getCurrentTodos example_completed))
                     (fst (getCurrentTodos example_completed)))
   \<and> stored (caller_sets_object 5 (mk_todo ''a'' ''Task 1'' pending)
               (snd (getCurrentTodos example_completed)))
       \<noteq> stored (snd (getCurrentTodos example_completed))"
  by (simp add: example_completed_array example_completed_changed example_completed_stored
        example_snapshot example_snapshot_changed example_snapshot_stored)
     (simp add: mk_todo_def status_values_differ)

section \<open>The order of the validator's checks\<close>

text \<open>
  Claim C5. When the schema layer reports no error, \<open>validateToolParams\<close> reports
  exactly the first violation in the fixed order: non-empty array; then for each item in
  submission order the indexed id error, content error and status error; then the
  "only one in_progress" violation; then the "duplicate ids" violation. For a list with
  several violations the message returned is the one this order reaches first.
\<close>

theorem validate_reports_first_violation:
  assumes "\<not> truthy (schemaValidate todos)"
  shows "validateToolParams schemaValidate todos = first_violation todos"
proof (cases "todos = []")
  case True
  with assms show ?thesis
    by (simp add: validateToolParams_def first_violation_def violations_def)
next
  case False
  let ?per_item = "concat (map (\<lambda>(i, todo). item_violations i todo) (enumerate 0 todos))"
  show ?thesis
  proof (cases ?per_item)
    case Nil
    have items: "validateItems 0 todos = None"
      by (simp only: validateItems_first[of 0 todos] Nil list.case)
    have "first_violation todos =
            (if 1 < count_list (map status todos) in_progress then Some msg_one_in_progress
             else if distinct (map id_of todos) then None else Some msg_unique_ids)"
      unfolding first_violation_def violations_def Nil using False by simp
    with assms False items show ?thesis
      by (simp add: validateToolParams_def Let_def length_filter_status length_card_distinct)
  next
    case (Cons v vs)
    have items: "validateItems 0 todos = Some v"
      by (simp only: validateItems_first[of 0 todos] Cons list.case)
    have "first_violation todos = Some v"
      unfolding first_violation_def violations_def Cons using False by simp
    with assms False items show ?thesis
      by (simp add: validateToolParams_def Let_def)
  qed
qed

theorem validate_reports_first_violation_witness:
  "\<not> truthy ((\<lambda>todos. None) example_invalid)
   \<and> violations example_invalid
       = [msg_content 1, msg_status 1, msg_one_in_progress, msg_unique_ids]
   \<and> validateToolParams (\<lambda>todos. None) example_invalid = Some (msg_content 1)"
  using validate_reports_first_violation[of "\<lambda>todos. None" example_invalid]
  by (simp add: truthy_def first_violation_def violations_def example_invalid_def mk_todo_def
        item_violations_def blank_def enumerate_eq_zip lit_def in_progress_def pending_def
        completed_def isWhiteSpace_def)

section \<open>Rejecting the empty list\<close>




section \<open>Executing the same list twice\<close>

text \<open>
  Claim C7. For every candidate list the validator has accepted (\<open>execute\<close> is called
  only after validation) and every starting state: executing twice in a row with the same
  candidate list leaves the recency marker none after the second call.
\<close>

theorem replace_twice_clears_marker:
  assumes "well_typed (arrays m (currentTodos m))" and "well_typed (arrays m r)"
    and "validateToolParams schemaValidate (deref m (arrays m r)) = None"
  shows "mostRecentlyCompletedId (snd (execute (snd (execute m r)) r)) = None"
  by (simp add: execute_twice[OF assms(1,2)]
        computeRecencyMarker_same[OF accepted_ids_distinct[OF assms(3)]])

theorem replace_twice_clears_marker_witness:
  "well_typed (arrays (snd example_update) (currentTodos (snd example_update)))
   \<and> well_typed (arrays (snd example_update) (fst example_update))
   \<and> validateToolParams (\<lambda>todos. None)
        (deref (snd example_update) (arrays (snd example_update) (fst example_update))) = None
   \<and> mostRecentlyCompletedId (snd (execute (snd example_update) (fst example_update)))
       = Some (lit ''a'')
   \<and> mostRecentlyCompletedId
        (snd (execute (snd (execute (snd example_update) (fst example_update)))
               (fst example_update))) = None"
  using replace_twice_clears_marker[OF example_update_well_typed example_update_accepted]
    example_update_well_typed example_update_accepted example_completed_marker
  by (simp add: example_completed_def)

section \<open>Rendering a non-empty list\<close>

text \<open>
  Claim C8, as amended. For every non-empty list whose contents contain no line break,
  the lines of the display are the title line and then one line per item, in exactly the
  order of the input list; the line of the last item alone begins with the terminal
  branch glyph, every other item line with the continuing branch glyph; a completed item
  gets the checked-box glyph, a pending or in-progress item the empty-box glyph. (The
  final \<open>trim\<close> removes white space at the end of the last content.)
\<close>

theorem display_lines_in_order:
  assumes "todos \<noteq> []" and "0xA \<notin> set (concat (map content todos))"
  shows "split_lines (generateTodoDisplay mrc todos) =
     (glyph_title @ lit '' Todo List'')
     # map (\<lambda>todo. glyph_mid @ lit '' ''
                @ (if status todo = completed then glyph_checked_box else glyph_empty_box)
                @ lit '' '' @ styledContent mrc todo)
         (butlast todos)
     @ [glyph_last @ lit '' ''
          @ (if status (last todos) = completed then glyph_checked_box else glyph_empty_box)
          @ trimEnd (lit '' '' @ styledContent mrc (last todos))]
   \<and> glyph_last \<noteq> glyph_mid \<and> length glyph_last = length glyph_mid
   \<and> glyph_checked_box \<noteq> glyph_empty_box"
proof -
  from assms(2) have "\<forall>t \<in> set todos. 0xA \<notin> set (content t)" by auto
  from display_lines[OF assms(1) this, of mrc]
  have "split_lines (generateTodoDisplay mrc todos) =
     (glyph_title @ lit '' Todo List'')
     # map (\<lambda>t. glyph_mid @ lit '' '' @ statusIcon t @ lit '' '' @ styledContent mrc t)
         (butlast todos)
     @ [glyph_last @ lit '' '' @ statusIcon (last todos)
          @ trimEnd (lit '' '' @ styledContent mrc (last todos))]" .
  moreover have "glyph_last \<noteq> glyph_mid" "length glyph_last = length glyph_mid"
    "glyph_checked_box \<noteq> glyph_empty_box"
    by (simp_all add: glyph_last_def glyph_mid_def glyph_checked_box_def glyph_empty_box_def)
  ultimately show ?thesis by (simp only: statusIcon_eq) simp
qed

theorem display_lines_in_order_witness:
  "example_three \<noteq> [] \<and> 0xA \<notin> set (concat (map content example_three))
   \<and> split_lines (generateTodoDisplay None example_three) =
       [glyph_title @ lit '' Todo List'',
        glyph_mid @ lit '' '' @ glyph_checked_box @ lit '' '' @ esc ''[9m'' @ lit ''Plan''
          @ esc ''[29m'' @ esc ''[0m'',
        glyph_mid @ lit '' '' @ glyph_empty_box @ lit '' '' @ esc ''[34m'' @ lit ''Build''
          @ esc ''[0m'',
        glyph_last @ lit '' '' @ glyph_empty_box @ lit '' Ship'']"
proof -
  have ne: "example_three \<noteq> []" by (simp add: example_three_def)
  have nb: "0xA \<notin> set (concat (map content example_three))"
    by (simp add: example_three_def mk_todo_def lit_def)
  have t: "trimEnd (lit '' Ship '') = lit '' Ship''"
    by (simp add: trimEnd_def lit_def isWhiteSpace_def)
  show ?thesis
    using display_lines_in_order[OF ne nb, of None] ne nb
    by (simp add: example_three_def mk_todo_def styledContent_def status_values_differ
          status_values_differ[symmetric] t[unfolded lit_def, simplified] lit_def)
qed

text \<open>
  The claim as stated, for every non-empty list, fails on a list the validator accepts:
  a content with a line break takes two lines, so two items give four lines, and the
  second line of the first item begins with the terminal branch glyph too.
\<close>

theorem display_lines_counterexample:
  "validateToolParams (\<lambda>todos. None) example_multiline = None
   \<and> length example_multiline = 2
   \<and> split_lines (generateTodoDisplay None example_multiline) =
       [glyph_title @ lit '' Todo List'',
        glyph_mid @ lit '' '' @ glyph_empty_box @ lit '' A'',
        glyph_last @ lit '' x'',
        glyph_last @ lit '' '' @ glyph_empty_box @ lit '' B'']"
proof -
  have "split_lines (generateTodoDisplay None example_multiline) =
       [glyph_title @ lit '' Todo List'',
        glyph_mid @ lit '' '' @ glyph_empty_box @ lit '' A'',
        glyph_last @ lit '' x'',
        glyph_last @ lit '' '' @ glyph_empty_box @ lit '' B'']"
    by (simp add: example_multiline_def generateTodoDisplay_def todoLine_def statusIcon_def
          styledContent_def mk_todo_def trim_def trimEnd_def isWhiteSpace_def split_lines_def
          glyph_title_def glyph_mid_def glyph_last_def glyph_empty_box_def lit_def
          pending_def in_progress_def completed_def)
  then show ?thesis by (simp add: example_multiline_accepted) (simp add: example_multiline_def)
qed

section \<open>The summary\<close>

text \<open>
  Claim C9. For every list, the summary string reports the exact per-status tallies of the
  list in the format "N total tasks: C completed, I in progress, P pending"; for the
  two-item input of the specification the summary of the success payload is
  "2 total tasks: 0 completed, 1 in progress, 1 pending".
\<close>

theorem summary_reports_exact_tallies:
  "generateSummary todos =
     (let c = renderSummaryCounts todos
      in toString (total c) @ lit '' total tasks: '' @ toString (completed_count c)
           @ lit '' completed, '' @ toString (in_progress_count c) @ lit '' in progress, ''
           @ toString (pending_count c) @ lit '' pending'')
   \<and> total (renderSummaryCounts todos) = length todos
   \<and> completed_count (renderSummaryCounts todos) = count_list (map status todos) completed
   \<and> in_progress_count (renderSummaryCounts todos) = count_list (map status todos) in_progress
   \<and> pending_count (renderSummaryCounts todos) = count_list (map status todos) pending
   \<and> llmContent (fst (submit example_spec initial)) =
       Success (lit ''Todo list updated successfully'') example_spec
         (lit ''2 total tasks: 0 completed, 1 in progress, 1 pending'')"
proof -
  have "llmContent (fst (submit example_spec initial)) =
       Success (lit ''Todo list updated successfully'') example_spec
         (lit ''2 total tasks: 0 completed, 1 in progress, 1 pending'')"
    by (simp add: example_spec_def example_defs generateSummary_def toString.simps)
  then show ?thesis
    by (simp add: generateSummary_def renderSummaryCounts_eq Let_def length_filter_status)
qed

section \<open>The try block cannot fail on todo objects\<close>

text \<open>
  Claim C10. In every state of a session whose lists follow \<^verbatim>\<open>TodoItem[]\<close>, for
  every params list of todo objects (of any length, with any statuses), \<open>execute\<close>
  returns the success result; it never returns the result of the \<^verbatim>\<open>catch\<close> branch.
\<close>

theorem execute_succeeds_on_well_typed:
  assumes "reachable m" and "well_typed (arrays m r)"
  shows "llmContent (fst (execute m r)) =
           Success (lit ''Todo list updated successfully'') (deref m (arrays m r))
             (generateSummary (deref m (arrays m r)))
         \<and> (\<forall>error. fst (execute m r) \<noteq> catch_result error)"
proof -
  from assms(1) have "well_typed (arrays m (currentTodos m))"
    using reachable_store_ok by (simp add: store_ok_def)
  from execute_well_typed[OF this assms(2)] show ?thesis
    by (simp add: catch_result_def)
qed

theorem execute_succeeds_on_well_typed_witness:
  "reachable (snd example_update) \<and> well_typed (arrays (snd example_update) (fst example_update))
   \<and> llmContent (fst (execute (snd example_update) (fst example_update))) =
       Success (lit ''Todo list updated successfully'')
         [mk_todo ''a'' ''Task 1'' completed, mk_todo ''b'' ''Task 2'' in_progress]
         (lit ''2 total tasks: 1 completed, 1 in progress, 0 pending'')"
proof -
  have s: "generateSummary [mk_todo ''a'' ''Task 1'' completed, mk_todo ''b'' ''Task 2'' in_progress]
     = lit ''2 total tasks: 1 completed, 1 in progress, 0 pending''"
    by (simp add: generateSummary_def mk_todo_def lit_def completed_def in_progress_def pending_def toString.simps)
  show ?thesis
  using execute_succeeds_on_well_typed[OF example_update_reachable example_update_well_typed(2)]
    example_update_reachable example_update_well_typed(2)
  by (simp add: example_update_list s)
qed

end
